theory Spec2Isabelle
  imports Complex_Main "HOL-Library.Multiset"
begin

section \<open>The score computations of pydca's PlmDCA wrapper\<close>

text \<open>
  This theory embeds the index algebra and the score transforms of
  \<^verbatim>\<open>src/pydca/plmdca/plmdca.py\<close>: \<^verbatim>\<open>map_index_couplings\<close>,
  \<^verbatim>\<open>get_couplings_no_gap_state\<close>, \<^verbatim>\<open>compute_sorted_FN\<close> and
  \<^verbatim>\<open>compute_sorted_FN_APC\<close>.

  Python's unbounded integers are \<^typ>\<open>int\<close>. Floating-point numbers (Python
  floats and numpy's float32 scalars) are idealised as \<^typ>\<open>real\<close>: rounding and
  overflow are not modelled. The array that \<^verbatim>\<open>compute_params\<close> obtains from the
  C++ backend is a parameter of every function that reads it.
\<close>

subsection \<open>Python and numpy primitives\<close>

datatype error = IndexError | ValueError | AssertionError | ZeroDivisionError

text \<open>Sequencing of computations that may raise.\<close>

definition and_then :: "error + 'a \<Rightarrow> ('a \<Rightarrow> error + 'b) \<Rightarrow> error + 'b" where
  "and_then r f = (case r of Inl e \<Rightarrow> Inl e | Inr x \<Rightarrow> f x)"

text \<open>A \<^verbatim>\<open>for\<close> loop over a sequence, threading the loop's state and stopping at
  the first exception.\<close>

fun for_loop :: "'i list \<Rightarrow> ('i \<Rightarrow> 's \<Rightarrow> error + 's) \<Rightarrow> 's \<Rightarrow> error + 's" where
  "for_loop [] body s = Inr s"
| "for_loop (x # xs) body s = and_then (body x s) (for_loop xs body)"

text \<open>\<^verbatim>\<open>range(lo, hi)\<close>: the integers from \<open>lo\<close> up to \<open>hi - 1\<close>, empty when
  \<open>hi \<le> lo\<close>.\<close>

definition py_range :: "int \<Rightarrow> int \<Rightarrow> int list" where
  "py_range lo hi = [lo..hi - 1]"

text \<open>\<^verbatim>\<open>int(x)\<close> on a float truncates towards zero.\<close>

definition py_int :: "real \<Rightarrow> int" where
  "py_int x = (if 0 \<le> x then \<lfloor>x\<rfloor> else \<lceil>x\<rceil>)"

text \<open>\<^verbatim>\<open>xs[k]\<close> on a list or a one-dimensional array: a negative index counts
  from the end, an index out of range raises.\<close>

definition getitem :: "'a list \<Rightarrow> int \<Rightarrow> error + 'a" where
  "getitem xs k =
     (let n = int (length xs); k' = (if k < 0 then k + n else k)
      in if 0 \<le> k' \<and> k' < n then Inr (xs ! nat k') else Inl IndexError)"

text \<open>\<^verbatim>\<open>xs[start:end]\<close>: both bounds are clipped to the sequence, negative bounds
  count from the end.\<close>

definition slice_bound :: "int \<Rightarrow> int \<Rightarrow> nat" where
  "slice_bound n k = nat (if k < 0 then max (k + n) 0 else min k n)"

definition slice :: "'a list \<Rightarrow> int \<Rightarrow> int \<Rightarrow> 'a list" where
  "slice xs start end =
     (let n = int (length xs); s = slice_bound n start; e = slice_bound n end
      in take (e - s) (drop s xs))"


text \<open>Arithmetic on numpy float scalars does not raise: a division by zero yields
  \<^verbatim>\<open>nan\<close> or an infinity (with a warning) and the value propagates. \<open>NonFinite\<close>
  stands for such a value. Every comparison with \<^verbatim>\<open>nan\<close> is false, and
  \<^verbatim>\<open>nan\<close> (from \<^verbatim>\<open>0/0\<close>) is the only non-finite value that
  \<^verbatim>\<open>compute_sorted_FN_APC\<close> can meet, its scores being non-negative.\<close>

datatype npfloat = Finite real | NonFinite

definition np_divide :: "real \<Rightarrow> real \<Rightarrow> npfloat" where
  "np_divide x y = (if y = 0 then NonFinite else Finite (x / y))"




text \<open>\<^verbatim>\<open>np.reshape(xs, (n, n))\<close> of a one-dimensional array, as the list of its
  rows; it raises unless the array has \<open>n * n\<close> elements.\<close>

definition rows :: "nat \<Rightarrow> real list \<Rightarrow> real list list" where
  "rows n xs = map (\<lambda>a. take n (drop (a * n) xs)) [0..<n]"

definition np_reshape_square :: "real list \<Rightarrow> int \<Rightarrow> error + real list list" where
  "np_reshape_square xs n =
     (if 0 \<le> n \<and> int (length xs) = n * n then Inr (rows (nat n) xs) else Inl ValueError)"

text \<open>\<^verbatim>\<open>np.mean\<close> of a one-dimensional array. (Of an empty array numpy
  returns \<^verbatim>\<open>nan\<close>; that arises only for \<open>q = 1\<close>, where no entry is left to
  centre.)\<close>

definition np_mean :: "real list \<Rightarrow> real" where
  "np_mean xs = sum_list xs / real (length xs)"

text \<open>\<^verbatim>\<open>sorted(xs, key=key, reverse=True)\<close>: Python's sort is stable and uses only
  \<^verbatim>\<open><\<close> on the keys; with \<^verbatim>\<open>reverse=True\<close> elements with equal keys keep
  their original order. On totally ordered keys this determines the result, which the
  insertion sort below computes. When every comparison is false (all keys
  \<^verbatim>\<open>nan\<close>) both leave the list as it is.\<close>

fun insort_reverse :: "('k \<Rightarrow> 'k \<Rightarrow> bool) \<Rightarrow> ('a \<Rightarrow> 'k) \<Rightarrow> 'a \<Rightarrow> 'a list \<Rightarrow> 'a list" where
  "insort_reverse lt key x [] = [x]"
| "insort_reverse lt key x (y # ys) =
     (if lt (key x) (key y) then y # insort_reverse lt key x ys else x # y # ys)"

definition sorted_reverse :: "('k \<Rightarrow> 'k \<Rightarrow> bool) \<Rightarrow> ('a \<Rightarrow> 'k) \<Rightarrow> 'a list \<Rightarrow> 'a list" where
  "sorted_reverse lt key xs = foldr (insort_reverse lt key) xs []"

subsection \<open>The instance and the index mapping\<close>

text \<open>The two attributes of a \<^verbatim>\<open>PlmDCA\<close> instance that the computations read:
  \<^verbatim>\<open>__seqs_len\<close> (called \<open>L\<close> or \<open>N\<close>) and \<^verbatim>\<open>__num_site_states\<close> (called \<open>q\<close>).\<close>

record plmdca =
  seqs_len :: int
  num_site_states :: int

text \<open>The float expression
  \<^verbatim>\<open>(L * (L - 1)/2) - (L - i) * ((L-i)-1)/2 + j - i - 1\<close>
  that lines 188 and 283 both compute. \<^verbatim>\<open>/\<close> is true division and binds like
  \<^verbatim>\<open>*\<close>, so each product is formed in integers and then halved as a float.\<close>

definition pair_offset :: "int \<Rightarrow> int \<Rightarrow> int \<Rightarrow> real" where
  "pair_offset L i j =
     real_of_int (L * (L - 1)) / 2 - real_of_int ((L - i) * ((L - i) - 1)) / 2
       + real_of_int j - real_of_int i - 1"

definition map_index_couplings :: "plmdca \<Rightarrow> int \<Rightarrow> int \<Rightarrow> int \<Rightarrow> int \<Rightarrow> int" where
  "map_index_couplings self i j a b =
     (let q = num_site_states self;
          L = seqs_len self;
          site = py_int (pair_offset L i j * real_of_int q * real_of_int q);
          k = L * q + site + b + a * q
      in k)"

text \<open>The spec's words for the two index functions, in integer arithmetic:
  \<^verbatim>\<open>pairOffset = (L*(L-1)/2) - (L-i)*(L-i-1)/2 + (j-i-1)\<close> and
  \<^verbatim>\<open>flatIndex = L*q + pairOffset(i,j,L)*q*q + a*q + b\<close>. They are compared with
  the code's \<open>pair_offset\<close> and \<open>map_index_couplings\<close> below.\<close>

definition pairOffset :: "int \<Rightarrow> int \<Rightarrow> int \<Rightarrow> int" where
  "pairOffset i j L = L * (L - 1) div 2 - (L - i) * (L - i - 1) div 2 + (j - i - 1)"

definition flatIndex :: "int \<Rightarrow> int \<Rightarrow> int \<Rightarrow> int \<Rightarrow> int \<Rightarrow> int \<Rightarrow> int" where
  "flatIndex i j a b L q = L * q + pairOffset i j L * q * q + a * q + b"

text \<open>The site pairs in the order in which the loops
  \<^verbatim>\<open>for i in range(L - 1): for j in range(i + 1, L)\<close> of lines 251-252 and
  281-282 visit them.\<close>

definition site_pairs :: "int \<Rightarrow> (int \<times> int) list" where
  "site_pairs L = concat (map (\<lambda>i. map (\<lambda>j. (i, j)) (py_range (i + 1) L)) (py_range 0 (L - 1)))"

subsection \<open>Extraction of the couplings without the gap state\<close>

definition get_couplings_no_gap_state :: "plmdca \<Rightarrow> real list \<Rightarrow> error + real list" where
  "get_couplings_no_gap_state self fields_and_couplings =
     for_loop (py_range 0 (seqs_len self - 1)) (\<lambda>i.
       for_loop (py_range (i + 1) (seqs_len self)) (\<lambda>j.
         for_loop (py_range 0 (num_site_states self - 1)) (\<lambda>a.
           for_loop (py_range 0 (num_site_states self - 1)) (\<lambda>b couplings.
             let indx = map_index_couplings self i j a b
             in and_then (getitem fields_and_couplings indx)
                  (\<lambda>v. Inr (couplings @ [v]))))))
       []"

text \<open>The values that lines 253-256 append for one site pair.\<close>

definition couplings_block :: "plmdca \<Rightarrow> real list \<Rightarrow> int \<times> int \<Rightarrow> real list" where
  "couplings_block self fields_and_couplings p =
     concat (map (\<lambda>a. map (\<lambda>b. fields_and_couplings
                                   ! nat (map_index_couplings self (fst p) (snd p) a b))
                          (py_range 0 (num_site_states self - 1)))
                 (py_range 0 (num_site_states self - 1)))"

subsection \<open>Frobenius-norm scores\<close>

text \<open>Lines 288-293: the row means, the column means and the overall mean of the square
  matrix of one site pair are taken and \<^verbatim>\<open>couplings_ij - avx - avy + av\<close> is formed,
  where the column vector \<^verbatim>\<open>avx\<close> and the row vector \<^verbatim>\<open>avy\<close> are broadcast
  over the matrix.\<close>

definition centred :: "real list list \<Rightarrow> real list list" where
  "centred m =
     (let avx = map np_mean m;
          avy = map np_mean (transpose m);
          av = np_mean (concat m)
      in map2 (\<lambda>row ax. map2 (\<lambda>x ay. x - ax - ay + av) row avy) m avx)"

text \<open>Lines 294-295: the Frobenius norm of the centred matrix.\<close>

definition centred_norm :: "real list list \<Rightarrow> real" where
  "centred_norm m = sqrt (sum_list (map (\<lambda>x. x * x) (concat (centred m))))"

text \<open>Lines 287-295: the reshape of the pair's slice, which raises when the slice has not
  \<open>qm1 * qm1\<close> elements, then the score.\<close>

definition dca_score :: "int \<Rightarrow> real list \<Rightarrow> error + real" where
  "dca_score qm1 couplings_ij =
     and_then (np_reshape_square couplings_ij qm1) (\<lambda>m. Inr (centred_norm m))"

text \<open>The score of one site pair: that of its block of extracted couplings.\<close>

definition pair_score :: "plmdca \<Rightarrow> real list \<Rightarrow> int \<times> int \<Rightarrow> real" where
  "pair_score self fields_and_couplings p =
     centred_norm (rows (nat (num_site_states self - 1))
       (couplings_block self fields_and_couplings p))"

definition compute_sorted_FN ::
  "plmdca \<Rightarrow> real list \<Rightarrow> error + ((int \<times> int) \<times> real) list" where
  "compute_sorted_FN self fields_and_couplings =
     (let L = seqs_len self;
          q = num_site_states self
      in and_then (get_couplings_no_gap_state self fields_and_couplings) (\<lambda>couplings.
           let qm1 = q - 1
           in and_then
                (for_loop (py_range 0 (seqs_len self - 1)) (\<lambda>i.
                   for_loop (py_range (i + 1) (seqs_len self)) (\<lambda>j dca_scores_not_apc.
                     let start_indx =
                           py_int (pair_offset L i j * real_of_int qm1 * real_of_int qm1);
                         end_indx = start_indx + qm1 * qm1;
                         couplings_ij = slice couplings start_indx end_indx
                     in and_then (dca_score qm1 couplings_ij) (\<lambda>score.
                          Inr (dca_scores_not_apc @ [((i, j), score)]))))
                   [])
                (\<lambda>dca_scores_not_apc. Inr (sorted_reverse (<) snd dca_scores_not_apc))))"

subsection \<open>Average product correction\<close>

text \<open>Lines 322-327: the average score of every site. \<^verbatim>\<open>float(N - 1)\<close> is a plain
  Python float; when it is zero the asserted \<^verbatim>\<open>i_scores\<close> is empty, its sum is the
  Python integer 0, and the division raises.\<close>

definition i_scores_of :: "((int \<times> int) \<times> real) list \<Rightarrow> int \<Rightarrow> real list" where
  "i_scores_of scores_plmdca i =
     map snd (filter (\<lambda>(pair, score). i = fst pair \<or> i = snd pair) scores_plmdca)"




subsection \<open>Orders on the outputs\<close>


subsection \<open>Small instances\<close>


definition three_sites :: plmdca where
  "three_sites = \<lparr>seqs_len = 3, num_site_states = 3\<rparr>"




definition scenario_params :: "real list" where
  "scenario_params =
     [0, 0, 0,  0, 0, 0,  0, 0, 0,
      1, 2, 3,  4, 5, 6,  7, 8, 9,
      10, 11, 12,  13, 14, 15,  16, 17, 18,
      19, 20, 21,  22, 23, 24,  25, 26, 27]"



section \<open>Properties\<close>

subsection \<open>Index algebra\<close>

lemma py_int_of_int: "py_int (real_of_int z) = z"
  by (simp add: py_int_def)

lemma half_consecutive: "real_of_int (n * (n - 1)) / 2 = real_of_int (n * (n - 1) div 2)"
  by (simp add: real_of_int_div)

lemma tri_step: "m * (m - 1) div 2 = (m - 1) * (m - 2) div 2 + (m - 1)" for m :: int
proof -
  have "m * (m - 1) = (m - 1) * (m - 2) + (m - 1) * 2"
    by (simp add: algebra_simps)
  then show ?thesis
    by (metis div_mult_self1 zero_neq_numeral add.commute)
qed

lemma tri_nonneg: "0 \<le> m * (m - 1) div 2" for m :: int
proof -
  have "0 \<le> m * (m - 1)"
    by (cases "0 \<le> m - 1") (auto simp: mult_nonpos_nonpos)
  then show ?thesis by simp
qed

lemma tri_mono: "1 \<le> m \<Longrightarrow> m \<le> n \<Longrightarrow> m * (m - 1) div 2 \<le> n * (n - 1) div 2"
  for m n :: int
proof -
  assume "1 \<le> m" "m \<le> n"
  then have "m * (m - 1) \<le> n * (n - 1)"
    by (intro mult_mono) auto
  then show ?thesis
    by (rule zdiv_mono1) simp
qed

lemma pair_offset_int: "pair_offset L i j = real_of_int (pairOffset i j L)"
  unfolding pair_offset_def pairOffset_def half_consecutive by simp

lemma map_index_couplings_flatIndex:
  "map_index_couplings self i j a b = flatIndex i j a b (seqs_len self) (num_site_states self)"
proof -
  have "pair_offset L i j * real_of_int q * real_of_int q = real_of_int (pairOffset i j L * q * q)"
    for L q
    by (simp add: pair_offset_int)
  then show ?thesis
    by (simp add: map_index_couplings_def flatIndex_def Let_def py_int_of_int
        del: of_int_mult of_int_add of_int_diff)
qed

lemma pairOffset_bounds:
  assumes "0 \<le> i" "i < j" "j < L"
  shows "0 \<le> pairOffset i j L" "pairOffset i j L < L * (L - 1) div 2"
proof -
  define m where "m = L - i"
  define t where "t = L * (L - 1) div 2"
  define u where "u = m * (m - 1) div 2"
  define v where "v = (m - 1) * (m - 2) div 2"
  have p: "pairOffset i j L = t - u + (j - i - 1)"
    by (simp add: pairOffset_def t_def u_def m_def)
  have "u \<le> t"
    unfolding u_def t_def using assms by (intro tri_mono) (simp_all add: m_def)
  then show "0 \<le> pairOffset i j L"
    using assms p by simp
  have "u = v + (m - 1)"
    unfolding u_def v_def by (rule tri_step)
  moreover have "0 \<le> v"
    unfolding v_def using tri_nonneg [of "m - 1"] by (simp add: algebra_simps)
  ultimately show "pairOffset i j L < L * (L - 1) div 2"
    using assms p by (simp add: m_def t_def [symmetric])
qed

lemma state_pair_bound:
  fixes a b q :: int
  assumes "0 \<le> a" "a < q" "0 \<le> b" "b < q"
  shows "0 \<le> a * q + b" "a * q + b < q * q"
proof -
  show "0 \<le> a * q + b"
    using assms by simp
  have "a * q \<le> (q - 1) * q"
    using assms by (intro mult_right_mono) auto
  then show "a * q + b < q * q"
    using assms by (simp add: algebra_simps)
qed



subsection \<open>The enumeration of the site pairs\<close>

lemma map_shift_upto: "map (\<lambda>j. c + j) [a..b] = [c + a..c + b]" for a b c :: int
  by (rule nth_equalityI) (auto simp: algebra_simps)

lemma concat_upto_blocks:
  fixes T :: "int \<Rightarrow> int"
  assumes "\<And>i. 0 \<le> i \<Longrightarrow> i \<le> int m \<Longrightarrow> T i \<le> T (i + 1)"
  shows "concat (map (\<lambda>i. [T i..T (i + 1) - 1]) [0..int m]) = [T 0..T (int m + 1) - 1]"
  using assms
proof (induction m)
  case 0
  then show ?case by simp
next
  case (Suc m)
  have mono: "T 0 \<le> T (int m + 1)"
  proof -
    have "\<And>k. k \<le> Suc m \<Longrightarrow> T 0 \<le> T (int k)"
    proof -
      fix k show "k \<le> Suc m \<Longrightarrow> T 0 \<le> T (int k)"
      proof (induction k)
        case 0 then show ?case by simp
      next
        case (Suc k)
        then have "T (int k) \<le> T (int k + 1)" using Suc.prems by (intro \<open>\<And>i. 0 \<le> i \<Longrightarrow> i \<le> int (Suc m) \<Longrightarrow> T i \<le> T (i + 1)\<close>) auto
        with Suc show ?case by (simp add: add.commute)
      qed
    qed
    from this [of "Suc m"] show ?thesis by (simp add: add.commute)
  qed
  have step: "T (int m + 1) \<le> T (int m + 1 + 1)"
    by (intro Suc.prems) auto
  have "[0..int (Suc m)] = [0..int m] @ [int m + 1]"
    using upto_rec2 [of 0 "int (Suc m)"] by (simp add: add.commute)
  then have "concat (map (\<lambda>i. [T i..T (i + 1) - 1]) [0..int (Suc m)])
      = [T 0..T (int m + 1) - 1] @ [T (int m + 1)..T (int m + 1 + 1) - 1]"
    using Suc.IH Suc.prems by simp
  also have "\<dots> = [T 0..T (int m + 1 + 1) - 1]"
    using upto_split1 [of "T 0" "T (int m + 1)" "T (int m + 1 + 1) - 1"] mono step
    apply (cases "T (int m + 1) = T (int m + 1 + 1)")
     apply simp
    apply simp
    done
  finally show ?case by (simp add: add.commute)
qed

lemma pairOffset_row:
  "map (\<lambda>j. pairOffset i j L) [i + 1..L - 1]
     = [pairOffset i (i + 1) L..pairOffset (i + 1) (i + 2) L - 1]"
proof -
  define c where "c = L * (L - 1) div 2 - (L - i) * (L - i - 1) div 2 - i - 1"
  have "(L - i) * (L - i - 1) div 2 = (L - i - 1) * (L - i - 2) div 2 + (L - i - 1)"
    using tri_step [of "L - i"] by (simp add: algebra_simps)
  then have e: "pairOffset (i + 1) (i + 2) L - 1 = c + (L - 1)"
    by (simp add: pairOffset_def c_def algebra_simps)
  have "map (\<lambda>j. pairOffset i j L) [i + 1..L - 1] = map (\<lambda>j. c + j) [i + 1..L - 1]"
    by (simp add: pairOffset_def c_def)
  also have "\<dots> = [c + (i + 1)..c + (L - 1)]"
    by (rule map_shift_upto)
  also have "c + (i + 1) = pairOffset i (i + 1) L"
    by (simp add: pairOffset_def c_def)
  finally show ?thesis unfolding e .
qed

lemma pairOffset_diag_mono:
  assumes "0 \<le> i" "i \<le> L - 2"
  shows "pairOffset i (i + 1) L \<le> pairOffset (i + 1) (i + 1 + 1) L"
proof -
  have "(L - i) * (L - i - 1) div 2 = (L - i - 1) * (L - i - 2) div 2 + (L - i - 1)"
    using tri_step [of "L - i"] by (simp add: algebra_simps)
  then show ?thesis using assms by (simp add: pairOffset_def algebra_simps)
qed

lemma pairOffset_site_pairs:
  assumes "1 \<le> L"
  shows "map (\<lambda>(i, j). pairOffset i j L) (site_pairs L) = [0..L * (L - 1) div 2 - 1]"
proof (cases "L = 1")
  case True
  then show ?thesis by (simp add: site_pairs_def py_range_def)
next
  case False
  define m where "m = nat (L - 2)"
  have m: "L - 2 = int m"
    using assms False by (simp add: m_def)
  have "map (\<lambda>(i, j). pairOffset i j L) (site_pairs L)
      = concat (map (\<lambda>i. map (\<lambda>j. pairOffset i j L) [i + 1..L - 1]) [0..L - 2])"
    by (simp add: site_pairs_def py_range_def map_concat o_def)
  also have "\<dots> = concat (map (\<lambda>i. [pairOffset i (i + 1) L..pairOffset (i + 1) (i + 1 + 1) L - 1]) [0..int m])"
    using pairOffset_row m by (simp add: add.assoc)
  also have "\<dots> = [pairOffset 0 (0 + 1) L..pairOffset (int m + 1) (int m + 1 + 1) L - 1]"
  proof (rule concat_upto_blocks)
    fix i :: int
    assume "0 \<le> i" "i \<le> int m"
    then show "pairOffset i (i + 1) L \<le> pairOffset (i + 1) (i + 1 + 1) L"
      using m by (intro pairOffset_diag_mono) simp_all
  qed
  also have "pairOffset 0 (0 + 1) L = 0"
    by (simp add: pairOffset_def)
  also have "pairOffset (int m + 1) (int m + 1 + 1) L = L * (L - 1) div 2"
  proof -
    have "int m + 1 = L - 1" using m by simp
    then have "pairOffset (int m + 1) (int m + 1 + 1) L = pairOffset (L - 1) (L - 1 + 1) L"
      by (simp only:)
    also have "\<dots> = L * (L - 1) div 2"
      by (simp add: pairOffset_def)
    finally show ?thesis .
  qed
  finally show ?thesis .
qed

lemma set_site_pairs: "set (site_pairs L) = {(i, j). 0 \<le> i \<and> i < j \<and> j < L}"
proof -
  have "(a, b) \<in> set (site_pairs L) \<longleftrightarrow> 0 \<le> a \<and> a < b \<and> b < L" for a b
    unfolding site_pairs_def py_range_def by (simp add: image_iff) linarith
  then show ?thesis by auto
qed


lemma length_site_pairs: "1 \<le> L \<Longrightarrow> int (length (site_pairs L)) = L * (L - 1) div 2"
  using arg_cong [OF pairOffset_site_pairs, of L length] tri_nonneg [of L] by simp



subsection \<open>Loops and blocks\<close>

lemma for_loop_append:
  assumes "\<And>x s. x \<in> set xs \<Longrightarrow> body x s = Inr (s @ g x)"
  shows "for_loop xs body s = Inr (s @ concat (map g xs))"
  using assms by (induction xs arbitrary: s) (simp_all add: and_then_def)

lemma take_drop_concat_uniform:
  assumes "\<And>x. x \<in> set xs \<Longrightarrow> length (g x) = c" "k < length xs"
  shows "take c (drop (k * c) (concat (map g xs))) = g (xs ! k)"
  using assms
proof (induction xs arbitrary: k)
  case Nil
  then show ?case by simp
next
  case (Cons x xs)
  show ?case
  proof (cases k)
    case 0
    then show ?thesis using Cons.prems by simp
  next
    case (Suc k')
    then show ?thesis using Cons by simp
  qed
qed

lemma length_concat_uniform:
  assumes "\<And>x. x \<in> set xs \<Longrightarrow> length (g x) = c"
  shows "length (concat (map g xs)) = length xs * c"
  using assms by (induction xs) simp_all

lemma nth_concat_uniform:
  assumes "\<And>x. x \<in> set xs \<Longrightarrow> length (g x) = c" "k < length xs" "r < c"
  shows "concat (map g xs) ! (k * c + r) = g (xs ! k) ! r"
proof -
  have "g (xs ! k) ! r = take c (drop (k * c) (concat (map g xs))) ! r"
    using take_drop_concat_uniform [of xs g c k] assms by simp
  also have "\<dots> = concat (map g xs) ! (k * c + r)"
  proof -
    have "k * c + c \<le> length xs * c"
      using assms(2) by (metis Suc_leI mult_Suc mult_le_mono1 add.commute)
    then have "k * c + r < length (concat (map g xs))"
      using assms(1,3) by (simp add: length_concat_uniform [of xs g c])
    then show ?thesis using assms(3) by simp
  qed
  finally show ?thesis by simp
qed

lemma site_pairs_nth:
  assumes "0 \<le> i" "i < j" "j < L"
  shows "nat (pairOffset i j L) < length (site_pairs L)"
    and "site_pairs L ! nat (pairOffset i j L) = (i, j)"
proof -
  have L: "1 \<le> L" using assms by simp
  have "(i, j) \<in> set (site_pairs L)"
    using assms by (simp add: set_site_pairs)
  then obtain k where k: "k < length (site_pairs L)" "site_pairs L ! k = (i, j)"
    by (auto simp: in_set_conv_nth)
  have "map (\<lambda>(i, j). pairOffset i j L) (site_pairs L) ! k = [0..L * (L - 1) div 2 - 1] ! k"
    by (simp only: pairOffset_site_pairs [OF L])
  moreover have "int k < L * (L - 1) div 2"
    using k(1) length_site_pairs [OF L] by simp
  ultimately have "pairOffset i j L = int k"
    using k by simp
  then show "nat (pairOffset i j L) < length (site_pairs L)"
    and "site_pairs L ! nat (pairOffset i j L) = (i, j)"
    using k by simp_all
qed

lemma concat_map_concat_map:
  "concat (map g (concat (map h xs))) = concat (map (\<lambda>x. concat (map g (h x))) xs)"
  by (induction xs) simp_all

lemma for_loop_site_pairs:
  assumes "\<And>i j s. (i, j) \<in> set (site_pairs L) \<Longrightarrow> body i j s = Inr (s @ g (i, j))"
  shows "for_loop (py_range 0 (L - 1)) (\<lambda>i. for_loop (py_range (i + 1) L) (body i)) s
           = Inr (s @ concat (map g (site_pairs L)))"
proof -
  have inner: "for_loop (py_range (i + 1) L) (body i) s
                 = Inr (s @ concat (map (\<lambda>j. g (i, j)) (py_range (i + 1) L)))"
    if "i \<in> set (py_range 0 (L - 1))" for i s
  proof (rule for_loop_append)
    fix j s
    assume "j \<in> set (py_range (i + 1) L)"
    with that have "(i, j) \<in> set (site_pairs L)"
      by (simp add: set_site_pairs py_range_def)
    then show "body i j s = Inr (s @ g (i, j))"
      by (rule assms)
  qed
  have "for_loop (py_range 0 (L - 1)) (\<lambda>i. for_loop (py_range (i + 1) L) (body i)) s
          = Inr (s @ concat (map (\<lambda>i. concat (map (\<lambda>j. g (i, j)) (py_range (i + 1) L)))
                                (py_range 0 (L - 1))))"
    by (rule for_loop_append) (rule inner)
  also have "concat (map (\<lambda>i. concat (map (\<lambda>j. g (i, j)) (py_range (i + 1) L))) (py_range 0 (L - 1)))
               = concat (map g (site_pairs L))"
    unfolding site_pairs_def concat_map_concat_map by (simp add: o_def)
  finally show ?thesis .
qed

lemma getitem_in_range: "0 \<le> k \<Longrightarrow> k < int (length xs) \<Longrightarrow> getitem xs k = Inr (xs ! nat k)"
  by (simp add: getitem_def Let_def)

lemma flatIndex_range:
  assumes "0 \<le> L" "0 \<le> q" "0 \<le> i" "i < j" "j < L" "0 \<le> a" "a < q" "0 \<le> b" "b < q"
  shows "L * q \<le> flatIndex i j a b L q" "flatIndex i j a b L q < L * q + (L * (L - 1) div 2) * q * q"
proof -
  let ?p = "pairOffset i j L"
  have p: "0 \<le> ?p" "?p + 1 \<le> L * (L - 1) div 2"
    using pairOffset_bounds [of i j L] assms by simp_all
  have s: "0 \<le> a * q + b" "a * q + b < q * q"
    using state_pair_bound assms by simp_all
  have "0 \<le> ?p * (q * q)"
    using p(1) by simp
  then show "L * q \<le> flatIndex i j a b L q"
    using s(1) by (simp add: flatIndex_def mult.assoc)
  have "(?p + 1) * (q * q) \<le> (L * (L - 1) div 2) * (q * q)"
    using p(2) by (intro mult_right_mono) auto
  then show "flatIndex i j a b L q < L * q + (L * (L - 1) div 2) * q * q"
    using s(2) by (simp add: flatIndex_def algebra_simps)
qed

lemma get_couplings_no_gap_state_blocks:
  assumes "seqs_len self = L" "num_site_states self = q" "0 \<le> L" "0 \<le> q"
    and "int (length raw) = L * q + (L * (L - 1) div 2) * q * q"
  shows "get_couplings_no_gap_state self raw
           = Inr (concat (map (couplings_block self raw) (site_pairs L)))"
proof -
  have body: "(let indx = map_index_couplings self i j a b
               in and_then (getitem raw indx) (\<lambda>v. Inr (s @ [v])))
              = Inr (s @ [raw ! nat (map_index_couplings self i j a b)])"
    if "(i, j) \<in> set (site_pairs L)" "a \<in> set (py_range 0 (q - 1))" "b \<in> set (py_range 0 (q - 1))"
    for i j a b and s :: "real list"
  proof -
    have v: "0 \<le> i" "i < j" "j < L" "0 \<le> a" "a < q" "0 \<le> b" "b < q"
      using that by (simp_all add: set_site_pairs py_range_def)
    have "0 \<le> L * q" using assms(3,4) by simp
    then have "0 \<le> flatIndex i j a b L q" "flatIndex i j a b L q < int (length raw)"
      using flatIndex_range [OF assms(3,4) v] assms(5) by simp_all
    then show ?thesis
      using assms(1,2) by (simp add: map_index_couplings_flatIndex getitem_in_range and_then_def)
  qed
  have pair: "for_loop (py_range 0 (q - 1)) (\<lambda>a.
                for_loop (py_range 0 (q - 1)) (\<lambda>b couplings.
                  let indx = map_index_couplings self i j a b
                  in and_then (getitem raw indx) (\<lambda>v. Inr (couplings @ [v])))) s
              = Inr (s @ couplings_block self raw (i, j))"
    if ij: "(i, j) \<in> set (site_pairs L)" for i j s
  proof -
    have row: "for_loop (py_range 0 (q - 1)) (\<lambda>b couplings.
                  let indx = map_index_couplings self i j a b
                  in and_then (getitem raw indx) (\<lambda>v. Inr (couplings @ [v]))) s
               = Inr (s @ concat (map (\<lambda>b. [raw ! nat (map_index_couplings self i j a b)])
                                      (py_range 0 (q - 1))))"
      if "a \<in> set (py_range 0 (q - 1))" for a s
      by (rule for_loop_append) (rule body [OF ij that])
    have "for_loop (py_range 0 (q - 1)) (\<lambda>a.
                for_loop (py_range 0 (q - 1)) (\<lambda>b couplings.
                  let indx = map_index_couplings self i j a b
                  in and_then (getitem raw indx) (\<lambda>v. Inr (couplings @ [v])))) s
          = Inr (s @ concat (map (\<lambda>a. concat (map (\<lambda>b. [raw ! nat (map_index_couplings self i j a b)])
                                      (py_range 0 (q - 1)))) (py_range 0 (q - 1))))"
      by (rule for_loop_append) (rule row)
    then show ?thesis
      using assms(2) by (simp add: couplings_block_def)
  qed
  show ?thesis
    unfolding get_couplings_no_gap_state_def assms(1,2)
    using for_loop_site_pairs [of L _ "couplings_block self raw" "[]", OF pair] by simp
qed

lemma length_couplings_block:
  "length (couplings_block self raw p)
     = nat (num_site_states self - 1) * nat (num_site_states self - 1)"
  unfolding couplings_block_def py_range_def
  by (subst length_concat_uniform [where c = "nat (num_site_states self - 1)"]) simp_all

lemma couplings_block_nth:
  assumes "num_site_states self = q" "0 \<le> a" "a < q - 1" "0 \<le> b" "b < q - 1"
  shows "couplings_block self raw (i, j) ! (nat a * nat (q - 1) + nat b)
           = raw ! nat (map_index_couplings self i j a b)"
proof -
  let ?g = "\<lambda>a. map (\<lambda>b. raw ! nat (map_index_couplings self i j a b)) [0..q - 2]"
  have "concat (map ?g [0..q - 2]) ! (nat a * nat (q - 1) + nat b) = ?g ([0..q - 2] ! nat a) ! nat b"
    by (rule nth_concat_uniform) (use assms in simp_all)
  also have "[0..q - 2] ! nat a = a"
    using assms by simp
  also have "?g a ! nat b = raw ! nat (map_index_couplings self i j a b)"
    using assms by simp
  finally show ?thesis
    using assms(1) by (simp add: couplings_block_def py_range_def)
qed

lemma block_position:
  assumes "0 \<le> p" "0 \<le> a" "a < q - 1" "0 \<le> b" "b < q - 1"
  shows "nat (p * (q - 1) * (q - 1) + a * (q - 1) + b)
           = nat p * (nat (q - 1) * nat (q - 1)) + (nat a * nat (q - 1) + nat b)"
    and "nat a * nat (q - 1) + nat b < nat (q - 1) * nat (q - 1)"
proof -
  have q: "0 \<le> q - 1" using assms by simp
  have "int (nat p * (nat (q - 1) * nat (q - 1)) + (nat a * nat (q - 1) + nat b))
          = p * (q - 1) * (q - 1) + a * (q - 1) + b"
    using assms q by (simp add: algebra_simps)
  then show "nat (p * (q - 1) * (q - 1) + a * (q - 1) + b)
           = nat p * (nat (q - 1) * nat (q - 1)) + (nat a * nat (q - 1) + nat b)"
    by (metis nat_int)
  have "a * (q - 1) + b < (q - 1) * (q - 1)"
    using state_pair_bound(2) [of a "q - 1" b] assms by simp
  then have "int (nat a * nat (q - 1) + nat b) < int (nat (q - 1) * nat (q - 1))"
    using assms q by simp
  then show "nat a * nat (q - 1) + nat b < nat (q - 1) * nat (q - 1)"
    by (simp only: of_nat_less_iff)
qed

lemma couplings_nth:
  assumes "num_site_states self = q" "0 \<le> i" "i < j" "j < L" "0 \<le> a" "a < q - 1" "0 \<le> b" "b < q - 1"
  shows "concat (map (couplings_block self raw) (site_pairs L))
           ! nat (pairOffset i j L * (q - 1) * (q - 1) + a * (q - 1) + b)
         = raw ! nat (map_index_couplings self i j a b)"
proof -
  let ?c = "nat (q - 1) * nat (q - 1)"
  have p: "0 \<le> pairOffset i j L"
    using pairOffset_bounds(1) assms by simp
  have "concat (map (couplings_block self raw) (site_pairs L))
           ! (nat (pairOffset i j L) * ?c + (nat a * nat (q - 1) + nat b))
        = couplings_block self raw (site_pairs L ! nat (pairOffset i j L)) ! (nat a * nat (q - 1) + nat b)"
    by (rule nth_concat_uniform)
      (use assms site_pairs_nth(1) block_position(2) in \<open>simp_all add: length_couplings_block\<close>)
  then show ?thesis
    using assms p by (simp add: block_position(1) site_pairs_nth(2) couplings_block_nth)
qed

lemma length_couplings:
  assumes "num_site_states self = q" "1 \<le> L" "1 \<le> q"
  shows "int (length (concat (map (couplings_block self raw) (site_pairs L))))
           = (L * (L - 1) div 2) * (q - 1) * (q - 1)"
proof -
  have "length (concat (map (couplings_block self raw) (site_pairs L)))
          = length (site_pairs L) * (nat (q - 1) * nat (q - 1))"
    by (rule length_concat_uniform) (simp add: length_couplings_block assms(1))
  then show ?thesis
    using length_site_pairs [OF assms(2)] assms(3) by (simp add: mult.assoc)
qed

text \<open>
  Claim C2. For every raw parameter array of length \<open>L*q + (L*(L-1)/2)*q*q\<close>, the
  extraction of the couplings without the gap state returns a sequence of length exactly
  \<open>(L*(L-1)/2)*(q-1)*(q-1)\<close>. Its elements are, for every site pair \<open>(i, j)\<close> in
  enumeration order and every \<open>(a, b)\<close> with \<open>0 \<le> a, b < q - 1\<close> in row-major order,
  the raw array's value at \<open>map_index_couplings i j a b\<close>; so the value for
  \<open>(i, j, a, b)\<close> stands at position \<open>pairOffset(i,j)*(q-1)*(q-1) + a*(q-1) + b\<close>. On the
  synthetic array whose value at \<open>k\<close> is \<open>k\<close>, the value extracted for \<open>(i, j, a, b)\<close> is
  the flat index itself.
\<close>

theorem get_couplings_no_gap_state_extracts:
  assumes "seqs_len self = L" "num_site_states self = q" "2 \<le> L" "2 \<le> q"
    and "int (length raw) = L * q + (L * (L - 1) div 2) * q * q"
  shows "\<exists>couplings. get_couplings_no_gap_state self raw = Inr couplings
      \<and> int (length couplings) = (L * (L - 1) div 2) * (q - 1) * (q - 1)
      \<and> couplings = concat (map (\<lambda>(i, j). concat (map (\<lambda>a. map (\<lambda>b.
                        raw ! nat (map_index_couplings self i j a b)) [0..q - 2]) [0..q - 2]))
                      (site_pairs L))
      \<and> (\<forall>i j a b. 0 \<le> i \<and> i < j \<and> j < L \<and> 0 \<le> a \<and> a < q - 1 \<and> 0 \<le> b \<and> b < q - 1 \<longrightarrow>
            couplings ! nat (pairOffset i j L * (q - 1) * (q - 1) + a * (q - 1) + b)
              = raw ! nat (map_index_couplings self i j a b)
            \<and> ((\<forall>k < length raw. raw ! k = real k) \<longrightarrow>
                 couplings ! nat (pairOffset i j L * (q - 1) * (q - 1) + a * (q - 1) + b)
                   = real_of_int (map_index_couplings self i j a b)))"
proof -
  let ?couplings = "concat (map (couplings_block self raw) (site_pairs L))"
  have run: "get_couplings_no_gap_state self raw = Inr ?couplings"
    using assms by (intro get_couplings_no_gap_state_blocks) simp_all
  have len: "int (length ?couplings) = (L * (L - 1) div 2) * (q - 1) * (q - 1)"
    using assms by (intro length_couplings) simp_all
  have blocks: "couplings_block self raw = (\<lambda>(i, j). concat (map (\<lambda>a. map (\<lambda>b.
                        raw ! nat (map_index_couplings self i j a b)) [0..q - 2]) [0..q - 2]))"
    using assms(2) by (auto simp: fun_eq_iff couplings_block_def py_range_def)
  have pos: "?couplings ! nat (pairOffset i j L * (q - 1) * (q - 1) + a * (q - 1) + b)
              = raw ! nat (map_index_couplings self i j a b)"
    if "0 \<le> i \<and> i < j \<and> j < L \<and> 0 \<le> a \<and> a < q - 1 \<and> 0 \<le> b \<and> b < q - 1" for i j a b
    using that assms(2) by (intro couplings_nth) simp_all
  have syn: "raw ! nat (map_index_couplings self i j a b) = real_of_int (map_index_couplings self i j a b)"
    if v: "0 \<le> i \<and> i < j \<and> j < L \<and> 0 \<le> a \<and> a < q - 1 \<and> 0 \<le> b \<and> b < q - 1"
      and raw: "\<forall>k < length raw. raw ! k = real k" for i j a b
  proof -
    have "0 \<le> L * q" using assms(3,4) by simp
    moreover have "L * q \<le> flatIndex i j a b L q" "flatIndex i j a b L q < int (length raw)"
      using flatIndex_range [of L q i j a b] v assms(3,4,5) by simp_all
    ultimately have "0 \<le> map_index_couplings self i j a b"
      "nat (map_index_couplings self i j a b) < length raw"
      using assms(1,2) by (simp_all add: map_index_couplings_flatIndex)
    then show ?thesis using raw by simp
  qed
  show ?thesis
    using run len pos syn unfolding blocks [symmetric] by (intro exI [of _ ?couplings]) simp
qed

lemma upto_0_1: "[0..1] = [0, 1 :: int]"
  by (simp add: upto_rec1)

lemma upto_0_2: "[0..2] = [0, 1, 2 :: int]"
  by (simp add: upto_rec1)

theorem get_couplings_no_gap_state_extracts_witness:
  "get_couplings_no_gap_state \<lparr>seqs_len = 2, num_site_states = 3\<rparr> (map real [0..<15])
     = Inr [6, 7, 9, 10]"
  using get_couplings_no_gap_state_extracts
    [of "\<lparr>seqs_len = 2, num_site_states = 3\<rparr>" 2 3 "map real [0..<15]"]
  by (simp add: site_pairs_def py_range_def map_index_couplings_flatIndex flatIndex_def
      pairOffset_def upto_0_1)

lemma and_then_Inr: "and_then (Inr x) f = f x"
  by (simp add: and_then_def)

lemma and_then_Inl: "and_then (Inl e) f = Inl e"
  by (simp add: and_then_def)

lemma slice_block:
  assumes "s + c \<le> length xs"
  shows "slice xs (int s) (int s + int c) = take c (drop s xs)"
proof -
  have "slice_bound (int (length xs)) (int s) = s"
    using assms by (simp add: slice_bound_def)
  moreover have "slice_bound (int (length xs)) (int s + int c) = s + c"
    using assms by (simp add: slice_bound_def nat_add_distrib)
  ultimately show ?thesis
    by (simp add: slice_def Let_def)
qed

lemma start_indx_eq:
  "py_int (pair_offset L i j * real_of_int n * real_of_int n) = pairOffset i j L * n * n"
proof -
  have "pair_offset L i j * real_of_int n * real_of_int n = real_of_int (pairOffset i j L * n * n)"
    by (simp add: pair_offset_int)
  then show ?thesis
    by (simp only: py_int_of_int)
qed

lemma slice_couplings:
  assumes "num_site_states self = q" "1 \<le> q" "(i, j) \<in> set (site_pairs L)"
  shows "slice (concat (map (couplings_block self raw) (site_pairs L)))
           (pairOffset i j L * (q - 1) * (q - 1))
           (pairOffset i j L * (q - 1) * (q - 1) + (q - 1) * (q - 1))
         = couplings_block self raw (i, j)"
proof -
  let ?xs = "concat (map (couplings_block self raw) (site_pairs L))"
  let ?c = "nat (q - 1) * nat (q - 1)"
  let ?k = "nat (pairOffset i j L)"
  have v: "0 \<le> i" "i < j" "j < L"
    using assms(3) by (simp_all add: set_site_pairs)
  have p: "0 \<le> pairOffset i j L"
    using pairOffset_bounds(1) [OF v] .
  have k: "?k < length (site_pairs L)" "site_pairs L ! ?k = (i, j)"
    using site_pairs_nth [OF v] by simp_all
  have len: "length ?xs = length (site_pairs L) * ?c"
    by (rule length_concat_uniform) (simp add: length_couplings_block assms(1))
  have "Suc ?k * ?c \<le> length (site_pairs L) * ?c"
    using k(1) by (intro mult_le_mono1) simp
  then have fits: "?k * ?c + ?c \<le> length ?xs"
    using len by (simp add: add.commute)
  have s: "pairOffset i j L * (q - 1) * (q - 1) = int (?k * ?c)"
    using p assms(2) by (simp add: mult.assoc)
  have c: "(q - 1) * (q - 1) = int ?c"
    using assms(2) by simp
  have "slice ?xs (int (?k * ?c)) (int (?k * ?c) + int ?c) = take ?c (drop (?k * ?c) ?xs)"
    by (rule slice_block) (rule fits)
  also have "\<dots> = couplings_block self raw (site_pairs L ! ?k)"
    by (rule take_drop_concat_uniform) (simp_all add: length_couplings_block assms(1) k(1))
  finally show ?thesis
    unfolding s c using k(2) by simp
qed

lemma dca_score_block:
  assumes "num_site_states self = q" "1 \<le> q"
  shows "dca_score (q - 1) (couplings_block self raw p) = Inr (pair_score self raw p)"
  using assms
  by (simp add: dca_score_def np_reshape_square_def and_then_def pair_score_def
      length_couplings_block)

lemma compute_sorted_FN_scores:
  assumes "seqs_len self = L" "num_site_states self = q" "0 \<le> L" "1 \<le> q"
    and "int (length raw) = L * q + (L * (L - 1) div 2) * q * q"
  shows "compute_sorted_FN self raw
           = Inr (sorted_reverse (<) snd (map (\<lambda>p. (p, pair_score self raw p)) (site_pairs L)))"
proof -
  let ?couplings = "concat (map (couplings_block self raw) (site_pairs L))"
  have run: "get_couplings_no_gap_state self raw = Inr ?couplings"
    using assms by (intro get_couplings_no_gap_state_blocks) simp_all
  have body: "(let start_indx = py_int (pair_offset L i j * real_of_int (q - 1) * real_of_int (q - 1));
                   end_indx = start_indx + (q - 1) * (q - 1);
                   couplings_ij = slice ?couplings start_indx end_indx
               in and_then (dca_score (q - 1) couplings_ij) (\<lambda>score. Inr (s @ [((i, j), score)])))
              = Inr (s @ [((i, j), pair_score self raw (i, j))])"
    if "(i, j) \<in> set (site_pairs L)" for i j s
    unfolding Let_def start_indx_eq slice_couplings [OF assms(2,4) that]
      dca_score_block [OF assms(2,4)]
    by (simp add: and_then_def)
  have loops: "for_loop (py_range 0 (L - 1)) (\<lambda>i. for_loop (py_range (i + 1) L) (\<lambda>j dca_scores_not_apc.
                 and_then (dca_score (q - 1) (slice ?couplings
                     (py_int (pair_offset L i j * real_of_int (q - 1) * real_of_int (q - 1)))
                     (py_int (pair_offset L i j * real_of_int (q - 1) * real_of_int (q - 1))
                        + (q - 1) * (q - 1))))
                   (\<lambda>score. Inr (dca_scores_not_apc @ [((i, j), score)])))) []
               = Inr ([] @ concat (map (\<lambda>p. [(p, pair_score self raw p)]) (site_pairs L)))"
    by (rule for_loop_site_pairs) (rule body [unfolded Let_def])
  show ?thesis
    unfolding compute_sorted_FN_def assms(1,2) Let_def run and_then_Inr loops
    by simp
qed

subsection \<open>Sorting\<close>

lemma mset_insort_reverse: "mset (insort_reverse lt key x ys) = add_mset x (mset ys)"
  by (induction ys) simp_all

lemma mset_sorted_reverse: "mset (sorted_reverse lt key xs) = mset xs"
  unfolding sorted_reverse_def by (induction xs) (simp_all add: mset_insort_reverse)

lemma set_sorted_reverse: "set (sorted_reverse lt key xs) = set xs"
  using mset_sorted_reverse [of lt key xs] by (metis set_mset_mset)






subsection \<open>Average product correction\<close>








subsection \<open>The centring transform\<close>










subsection \<open>Evaluation on small instances\<close>

lemma site_pairs_2: "site_pairs 2 = [(0, 1)]"
  by (simp add: site_pairs_def py_range_def upto_rec1)

lemma site_pairs_3: "site_pairs 3 = [(0, 1), (0, 2), (1, 2)]"
  by (simp add: site_pairs_def py_range_def upto_rec1)

lemma site_pairs_4: "site_pairs 4 = [(0, 1), (0, 2), (0, 3), (1, 2), (1, 3), (2, 3)]"
  by (simp add: site_pairs_def py_range_def upto_rec1)

lemma upt_2: "[0..<2] = [0, Suc 0]"
  by (simp add: upt_rec)

lemma rows_2: "rows 2 [w, x, y, z] = [[w, x], [y, z]]"
  by (simp add: rows_def upt_2)

lemma centred_2:
  "centred [[w, x], [y, z]]
     = [[(w - x - y + z) / 4, (x - w - z + y) / 4], [(y - w - z + x) / 4, (z - x - y + w) / 4]]"
  by (simp add: centred_def np_mean_def Let_def field_simps)

lemma centred_norm_2: "centred_norm [[w, x], [y, z]] = \<bar>w - x - y + z\<bar> / 2"
proof -
  have "sum_list (map (\<lambda>x. x * x) (concat (centred [[w, x], [y, z]]))) = ((w - x - y + z) / 2)\<^sup>2"
    unfolding centred_2 by (simp add: power2_eq_square field_simps)
  then show ?thesis
    by (simp add: centred_norm_def)
qed

lemma couplings_block_q3:
  assumes "num_site_states self = 3"
  shows "couplings_block self raw (i, j)
    = [raw ! nat (map_index_couplings self i j 0 0), raw ! nat (map_index_couplings self i j 0 1),
       raw ! nat (map_index_couplings self i j 1 0), raw ! nat (map_index_couplings self i j 1 1)]"
  by (simp add: couplings_block_def assms py_range_def upto_0_1)

lemma pair_score_q3:
  assumes "num_site_states self = 3"
  shows "pair_score self raw (i, j)
    = \<bar>raw ! nat (map_index_couplings self i j 0 0) - raw ! nat (map_index_couplings self i j 0 1)
       - raw ! nat (map_index_couplings self i j 1 0) + raw ! nat (map_index_couplings self i j 1 1)\<bar> / 2"
  unfolding pair_score_def couplings_block_q3 [OF assms] by (simp add: assms rows_2 centred_norm_2)

subsection \<open>Scores and averages\<close>












subsection \<open>The two entry points on a well-sized array\<close>





subsection \<open>The claims about the two sorted outputs\<close>





subsection \<open>The entry points on the small instances\<close>

lemmas instance_simps = site_pairs_2 site_pairs_3 site_pairs_4 pair_score_q3
  map_index_couplings_flatIndex flatIndex_def pairOffset_def sorted_reverse_def
  i_scores_of_def upto_0_1 upto_0_2 np_divide_def






lemma FN_scenario:
  "compute_sorted_FN three_sites scenario_params = Inr [((0, 1), 0), ((0, 2), 0), ((1, 2), 0)]"
  using compute_sorted_FN_scores [of three_sites 3 3 scenario_params]
  by (simp add: three_sites_def scenario_params_def instance_simps)





subsection \<open>The index mapping on arbitrary indices\<close>



lemma centred_scenario: "centred [[1, 2], [4, 5]] = [[0, 0], [0, 0]]"
  by (simp add: centred_2)

subsection \<open>The concrete scenario\<close>

text \<open>
  Claim C10, with the arithmetic of the code. For \<open>L = 3\<close>, \<open>q = 3\<close> and the coupling block
  of pair \<open>(0, 1)\<close> set to \<open>[[1,2,3],[4,5,6],[7,8,9]]\<close>, the block extracted for the pair is
  \<open>[1, 2, 4, 5]\<close>, and its raw score is the Frobenius norm of the double-centred matrix
  \<open>[[1,2],[4,5]]\<close>: row means \<open>[1.5, 4.5]\<close>, column means \<open>[2.5, 3.5]\<close>, overall mean
  \<open>3\<close>, centred matrix \<open>[[0,0],[0,0]]\<close>, score \<open>0\<close>.
\<close>

theorem scenario_extraction_and_score:
  assumes "seqs_len self = 3" "num_site_states self = 3" "length raw = 36"
    and "take 9 (drop 9 raw) = [1, 2, 3, 4, 5, 6, 7, 8, 9]"
  shows "\<exists>couplings fn.
           get_couplings_no_gap_state self raw = Inr couplings
         \<and> slice couplings 0 4 = [1, 2, 4, 5]
         \<and> np_reshape_square [1, 2, 4, 5] 2 = Inr [[1, 2], [4, 5]]
         \<and> map np_mean [[1, 2], [4, 5]] = [3 / 2, 9 / 2]
         \<and> map np_mean (transpose [[1, 2], [4, 5]]) = [5 / 2, 7 / 2]
         \<and> np_mean (concat [[1, 2], [4, 5]]) = 3
         \<and> centred [[1, 2], [4, 5]] = [[0, 0], [0, 0]]
         \<and> dca_score 2 [1, 2, 4, 5] = Inr 0
         \<and> compute_sorted_FN self raw = Inr fn
         \<and> ((0, 1), 0) \<in> set fn
         \<and> (\<forall>s. ((0, 1), s) \<in> set fn \<longrightarrow> s = 0)"
proof -
  define couplings where "couplings = concat (map (couplings_block self raw) (site_pairs 3))"
  define fn where "fn = sorted_reverse (<) snd (map (\<lambda>p. (p, pair_score self raw p)) (site_pairs 3))"
  have len: "int (length raw) = 3 * 3 + (3 * (3 - 1) div 2) * 3 * 3"
    using assms(3) by simp
  have nth: "raw ! (9 + k) = [1, 2, 3, 4, 5, 6, 7, 8, 9] ! k" if "k < 9" for k
  proof -
    have "take 9 (drop 9 raw) ! k = raw ! (9 + k)"
      using that assms(3) by simp
    then show ?thesis
      by (simp only: assms(4))
  qed
  have vals: "raw ! 9 = 1" "raw ! 10 = 2" "raw ! 12 = 4" "raw ! 13 = 5"
    using nth [of 0] nth [of 1] nth [of 3] nth [of 4] by simp_all
  have block: "couplings_block self raw (0, 1) = [1, 2, 4, 5]"
    unfolding couplings_block_q3 [OF assms(2)]
    by (simp add: map_index_couplings_flatIndex flatIndex_def pairOffset_def assms(1,2) vals)
  have run: "get_couplings_no_gap_state self raw = Inr couplings"
    unfolding couplings_def using assms(1,2) _ _ len
    by (rule get_couplings_no_gap_state_blocks) simp_all
  have "slice couplings (pairOffset 0 1 3 * (3 - 1) * (3 - 1))
          (pairOffset 0 1 3 * (3 - 1) * (3 - 1) + (3 - 1) * (3 - 1))
        = couplings_block self raw (0, 1)"
    unfolding couplings_def using assms(2) by (rule slice_couplings) (simp_all add: site_pairs_3)
  then have sl: "slice couplings 0 4 = [1, 2, 4, 5]"
    by (simp add: pairOffset_def block)
  have resh: "np_reshape_square [1, 2, 4, 5] 2 = Inr [[1, 2], [4, 5]]"
    by (simp add: np_reshape_square_def rows_2)
  have means: "map np_mean [[1, 2], [4, 5]] = [3 / 2, 9 / 2]"
    "map np_mean (transpose [[1, 2], [4, 5]]) = [5 / 2, 7 / 2]"
    "np_mean (concat [[1, 2], [4, 5]]) = 3"
    by (simp_all add: np_mean_def)
  have score: "dca_score 2 [1, 2, 4, 5] = Inr 0"
    by (simp add: dca_score_def resh and_then_Inr centred_norm_2)
  have fn: "compute_sorted_FN self raw = Inr fn"
    unfolding fn_def using assms(1,2) _ _ len by (rule compute_sorted_FN_scores) simp_all
  have ps: "pair_score self raw (0, 1) = 0"
    unfolding pair_score_def block by (simp add: assms(2) rows_2 centred_norm_2)
  have set_fn: "set fn = (\<lambda>p. (p, pair_score self raw p)) ` set (site_pairs 3)"
    by (simp add: fn_def set_sorted_reverse)
  have mem: "((0, 1), 0) \<in> set fn"
    unfolding set_fn using ps by (simp add: site_pairs_3)
  have uniq: "\<forall>s. ((0, 1), s) \<in> set fn \<longrightarrow> s = 0"
    unfolding set_fn using ps by auto
  show ?thesis
    by (rule exI [of _ couplings], rule exI [of _ fn], intro conjI)
      (fact run sl resh means centred_scenario score fn mem uniq)+
qed

theorem scenario_extraction_and_score_witness:
  "get_couplings_no_gap_state three_sites scenario_params
     = Inr [1, 2, 4, 5, 10, 11, 13, 14, 19, 20, 22, 23]
   \<and> slice [1, 2, 4, 5, 10, 11, 13, 14, 19, 20, 22, 23 :: real] 0 4 = [1, 2, 4, 5]
   \<and> compute_sorted_FN three_sites scenario_params = Inr [((0, 1), 0), ((0, 2), 0), ((1, 2), 0)]"
proof -
  obtain couplings fn where r: "get_couplings_no_gap_state three_sites scenario_params = Inr couplings"
    "slice couplings 0 4 = [1, 2, 4, 5]" "compute_sorted_FN three_sites scenario_params = Inr fn"
    using scenario_extraction_and_score [of three_sites scenario_params]
    by (auto simp: three_sites_def scenario_params_def)
  have "get_couplings_no_gap_state three_sites scenario_params
          = Inr (concat (map (couplings_block three_sites scenario_params) (site_pairs 3)))"
    by (rule get_couplings_no_gap_state_blocks [of three_sites 3 3 scenario_params])
      (simp_all add: three_sites_def scenario_params_def)
  then have c: "get_couplings_no_gap_state three_sites scenario_params
          = Inr [1, 2, 4, 5, 10, 11, 13, 14, 19, 20, 22, 23]"
    by (simp add: site_pairs_3 couplings_block_q3 three_sites_def scenario_params_def
        map_index_couplings_flatIndex flatIndex_def pairOffset_def)
  then have "couplings = [1, 2, 4, 5, 10, 11, 13, 14, 19, 20, 22, 23]"
    using r(1) by simp
  then show ?thesis
    using c r(2) FN_scenario by simp
qed

theorem scenario_score_counterexample:
  "compute_sorted_FN three_sites scenario_params = Inr [((0, 1), 0), ((0, 2), 0), ((1, 2), 0)]
   \<and> (0 :: real) \<noteq> sqrt (0\<^sup>2 + (1 / 2)\<^sup>2 + (1 / 2)\<^sup>2 + 0\<^sup>2)
   \<and> map np_mean (transpose [[1, 2], [4, 5]]) \<noteq> [5 / 2, 9 / 2]
   \<and> centred [[1, 2], [4, 5]] \<noteq> [[0, - 1 / 2], [1 / 2, 0]]"
  by (simp add: FN_scenario np_mean_def centred_2)

subsection \<open>Witnesses and counterexamples on the small instances\<close>








end
